theory Spec2Isabelle
  imports Main "HOL-Library.Word"
begin

unbundle bit_operations_syntax

section \<open>The advertising payload encoder (\<^verbatim>\<open>advertising_payload\<close>)\<close>

text \<open>
  The module imports \<^verbatim>\<open>micropython\<close>, \<^verbatim>\<open>machine\<close> and \<^verbatim>\<open>bluetooth\<close>: its interpreter
  is MicroPython. Python integers are unbounded (\<open>int\<close>); a \<^verbatim>\<open>bytes\<close> or \<^verbatim>\<open>bytearray\<close>
  value is a list of 8-bit words.
\<close>

type_synonym byte = "8 word"
type_synonym bytes = "byte list"

definition ADV_TYPE_FLAGS :: int where "ADV_TYPE_FLAGS = 0x01"
definition ADV_TYPE_NAME :: int where "ADV_TYPE_NAME = 0x09"
definition ADV_TYPE_UUID16_COMPLETE :: int where "ADV_TYPE_UUID16_COMPLETE = 0x3"
definition ADV_TYPE_UUID32_COMPLETE :: int where "ADV_TYPE_UUID32_COMPLETE = 0x5"
definition ADV_TYPE_UUID128_COMPLETE :: int where "ADV_TYPE_UUID128_COMPLETE = 0x7"
definition ADV_TYPE_APPEARANCE :: int where "ADV_TYPE_APPEARANCE = 0x19"

text \<open>
  \<^verbatim>\<open>struct.pack\<close> of MicroPython stores an integer by its low-order bytes and checks no
  range (\<^verbatim>\<open>mp_binary_set_val\<close> copies \<open>size\<close> bytes of the value): format \<^verbatim>\<open>B\<close> keeps
  the value modulo 256, format \<^verbatim>\<open><h\<close> the value modulo 65536, low byte first. On \<open>int\<close>,
  \<open>div\<close> and \<open>mod\<close> round towards minus infinity, which is two's complement for a
  negative value.
\<close>

definition pack_B :: "int \<Rightarrow> bytes" where
  "pack_B v = [word_of_int (v mod 256)]"

definition pack_BB :: "int \<Rightarrow> int \<Rightarrow> bytes" where
  "pack_BB v w = [word_of_int (v mod 256), word_of_int (w mod 256)]"

definition pack_h_le :: "int \<Rightarrow> bytes" where
  "pack_h_le v = [word_of_int (v mod 256), word_of_int (v div 256 mod 256)]"

text \<open>
  The inner function \<^verbatim>\<open>_append\<close> extends the nonlocal \<^verbatim>\<open>payload\<close>; here the payload
  is passed in and returned.
\<close>

definition append_field :: "bytes \<Rightarrow> int \<Rightarrow> bytes \<Rightarrow> bytes" where
  "append_field payload adv_type val =
     payload @ pack_BB (int (length val) + 1) adv_type @ val"

text \<open>
  The loop over \<^verbatim>\<open>services\<close>. Each element stands for \<^verbatim>\<open>bytes(uuid)\<close>, the byte string
  of the UUID; a length other than 2, 4 or 16 falls through the \<^verbatim>\<open>if\<close>/\<^verbatim>\<open>elif\<close> chain.
\<close>

fun services_loop :: "bytes \<Rightarrow> bytes list \<Rightarrow> bytes" where
  "services_loop payload [] = payload"
| "services_loop payload (b # rest) =
     services_loop
       (if length b = 2 then append_field payload ADV_TYPE_UUID16_COMPLETE b
        else if length b = 4 then append_field payload ADV_TYPE_UUID32_COMPLETE b
        else if length b = 16 then append_field payload ADV_TYPE_UUID128_COMPLETE b
        else payload)
       rest"

text \<open>
  \<^verbatim>\<open>name\<close> and \<^verbatim>\<open>services\<close> default to \<^verbatim>\<open>None\<close>; \<^verbatim>\<open>if name:\<close> and \<^verbatim>\<open>if services:\<close>
  are false for \<^verbatim>\<open>None\<close> and for an empty value; \<^verbatim>\<open>if appearance:\<close> is false for 0.
  The name is a \<^verbatim>\<open>bytes\<close> value; a \<^verbatim>\<open>str\<close> of ASCII characters, such as the default
  name of the peripheral, is appended as its bytes and has their length.
\<close>

definition advertising_payload ::
  "bool \<Rightarrow> bool \<Rightarrow> bytes option \<Rightarrow> bytes list option \<Rightarrow> int \<Rightarrow> bytes" where
  "advertising_payload limited_disc br_edr name services appearance =
     (let payload = [];
          payload = append_field payload ADV_TYPE_FLAGS
            (pack_B ((if limited_disc then 0x01 else 0x02) + (if br_edr then 0x18 else 0x04)));
          payload = (case name of
                       None \<Rightarrow> payload
                     | Some n \<Rightarrow> if n \<noteq> [] then append_field payload ADV_TYPE_NAME n
                                else payload);
          payload = (case services of
                       None \<Rightarrow> payload
                     | Some uuids \<Rightarrow> if uuids \<noteq> [] then services_loop payload uuids
                                    else payload);
          payload = (if appearance \<noteq> 0
                     then append_field payload ADV_TYPE_APPEARANCE (pack_h_le appearance)
                     else payload)
      in payload)"

text \<open>
  A string of ASCII characters as its bytes, to write \<^verbatim>\<open>b"car-leo"\<close>.
\<close>

definition bytes_of :: "string \<Rightarrow> bytes" where
  "bytes_of s = map of_char s"

text \<open>
  The bytes each of the four steps of \<^verbatim>\<open>advertising_payload\<close> adds to the payload it is
  given (\<open>advertising_payload_parts\<close> below proves that the payload is their
  concatenation).
\<close>

definition flags_part :: "bool \<Rightarrow> bool \<Rightarrow> bytes" where
  "flags_part limited_disc br_edr = append_field [] ADV_TYPE_FLAGS
     (pack_B ((if limited_disc then 0x01 else 0x02) + (if br_edr then 0x18 else 0x04)))"

definition name_part :: "bytes option \<Rightarrow> bytes" where
  "name_part name =
     (case name of None \<Rightarrow> []
      | Some n \<Rightarrow> if n \<noteq> [] then append_field [] ADV_TYPE_NAME n else [])"

definition services_part :: "bytes list option \<Rightarrow> bytes" where
  "services_part services = (case services of None \<Rightarrow> [] | Some uuids \<Rightarrow> services_loop [] uuids)"

definition appearance_part :: "int \<Rightarrow> bytes" where
  "appearance_part appearance =
     (if appearance \<noteq> 0 then append_field [] ADV_TYPE_APPEARANCE (pack_h_le appearance)
      else [])"

subsection \<open>Reading a payload back\<close>

text \<open>
  The layout the payload is meant to have: consecutive fields, each a length byte, a type
  byte and a value, the length byte counting the type byte and the value. \<open>field_bytes\<close>
  writes one field of that layout; \<open>decompose\<close> reads a byte string from the left and
  returns its fields as (type, value) pairs, or \<open>None\<close> when the bytes are not a
  sequence of such fields that ends where the bytes end. A length byte of 0 is the
  length byte of no field.
\<close>

definition field_bytes :: "byte \<times> bytes \<Rightarrow> bytes" where
  "field_bytes f = of_nat (length (snd f) + 1) # fst f # snd f"

fun decompose :: "bytes \<Rightarrow> (byte \<times> bytes) list option" where
  "decompose [] = Some []"
| "decompose [l] = None"
| "decompose (l # t # rest) =
     (if unat l = 0 \<or> length rest < unat l - 1 then None
      else case decompose (drop (unat l - 1) rest) of
             None \<Rightarrow> None
           | Some fs \<Rightarrow> Some ((t, take (unat l - 1) rest) # fs))"

text \<open>
  A payload contains a field when its bytes decompose into fields and the field is one
  of them.
\<close>

definition has_field :: "bytes \<Rightarrow> byte \<times> bytes \<Rightarrow> bool" where
  "has_field p f = (case decompose p of None \<Rightarrow> False | Some fs \<Rightarrow> f \<in> set fs)"

text \<open>
  A byte string is tiled when it is the concatenation of fields whose values have at
  most 254 bytes, so that each length byte is the length of the value plus 1.
\<close>

definition tiled :: "bytes \<Rightarrow> bool" where
  "tiled p = (\<exists>fs. p = concat (map field_bytes fs) \<and> (\<forall>f\<in>set fs. length (snd f) \<le> 254))"

section \<open>The peripheral session (\<^verbatim>\<open>BLESimplePeripheral\<close>)\<close>

text \<open>
  What the session does to its collaborators is recorded, in order, as a list of effects:
  the calls on the radio interface \<^verbatim>\<open>self._ble\<close>, the duty set on \<^verbatim>\<open>LED_PWM\<close>, the
  lines printed, and the calls of the registered write callback. A callback is an opaque
  callable of type \<open>'cb\<close>; what it does when called is not part of the session.
\<close>

datatype 'cb effect =
    Ble_active bool
  | Ble_irq
  | Gatts_register_services
  | Gap_advertise int bytes
  | Gatts_read int
  | Gatts_notify int int bytes
  | Led_duty int
  | Print string "int list"
  | Call_write_callback 'cb bytes

text \<open>
  The fields of the object, the attribute values held by the radio stack (what
  \<^verbatim>\<open>gatts_read\<close> returns for a value handle), and the effects so far. \<^verbatim>\<open>_write_callback\<close>
  holds \<^verbatim>\<open>None\<close> or a callable; a callable is true in a condition.
\<close>

record 'cb session =
  handle_tx :: int
  handle_rx :: int
  connections :: "int set"
  write_callback :: "'cb option"
  payload :: bytes
  ble_gatts_value :: "int \<Rightarrow> bytes"
  effects :: "'cb effect list"

datatype error = KeyError int

text \<open>
  An exception leaves the object as it was when it was raised: a failed call returns
  the error together with that state.
\<close>

type_synonym 'cb result = "(error \<times> 'cb session) + 'cb session"

definition emit :: "'cb session \<Rightarrow> 'cb effect \<Rightarrow> 'cb session" where
  "emit s e = s\<lparr>effects := effects s @ [e]\<rparr>"

definition advertise :: "'cb session \<Rightarrow> int \<Rightarrow> 'cb session" where
  "advertise s interval_us =
     (let s = emit s (Print ''Starting advertising'' [])
      in emit s (Gap_advertise interval_us (payload s)))"

text \<open>
  \<^verbatim>\<open>__init__\<close>. The radio stack chooses the two handles that
  \<^verbatim>\<open>gatts_register_services\<close> returns, and \<^verbatim>\<open>bluetooth.UUID\<close> the bytes of the service
  UUID: they are parameters, with the attribute values of the stack. The name is given
  by its bytes.
\<close>

definition init :: "(int \<Rightarrow> bytes) \<Rightarrow> int \<Rightarrow> int \<Rightarrow> bytes \<Rightarrow> bytes option \<Rightarrow> 'cb session" where
  "init gatts_value tx rx uart_uuid name =
     advertise
       \<lparr>handle_tx = tx, handle_rx = rx, connections = {}, write_callback = None,
        payload = advertising_payload False False name (Some [uart_uuid]) 0,
        ble_gatts_value = gatts_value,
        effects = [Ble_active True, Ble_irq, Gatts_register_services]\<rparr>
       500000"

text \<open>
  The events the radio stack delivers to \<^verbatim>\<open>_irq\<close>: the event code with its data tuple.
  Codes 1, 2 and 3 carry the tuples the handler unpacks; any other code is \<open>IRQ_OTHER\<close>.
\<close>

datatype irq_event =
    IRQ_CENTRAL_CONNECT int int bytes
  | IRQ_CENTRAL_DISCONNECT int int bytes
  | IRQ_GATTS_WRITE int int
  | IRQ_OTHER int

text \<open>
  \<^verbatim>\<open>_irq\<close>. \<^verbatim>\<open>set.remove\<close> raises \<^verbatim>\<open>KeyError\<close> for an element that is not in the set,
  and nothing after it runs.
\<close>

fun irq :: "'cb session \<Rightarrow> irq_event \<Rightarrow> 'cb result" where
  "irq s (IRQ_CENTRAL_CONNECT conn_handle addr_type addr) =
     (let s = emit s (Print ''New connection'' [conn_handle]);
          s = s\<lparr>connections := insert conn_handle (connections s)\<rparr>;
          s = emit s (Led_duty 1000)
      in Inr s)"
| "irq s (IRQ_CENTRAL_DISCONNECT conn_handle addr_type addr) =
     (let s = emit s (Print ''Disconnected'' [conn_handle])
      in if conn_handle \<notin> connections s then Inl (KeyError conn_handle, s)
         else let s = s\<lparr>connections := connections s - {conn_handle}\<rparr>;
                  s = emit s (Led_duty 0)
              in Inr (advertise s 500000))"
| "irq s (IRQ_GATTS_WRITE conn_handle value_handle) =
     (let s = emit s (Gatts_read value_handle);
          val = ble_gatts_value s value_handle
      in if value_handle = handle_rx s
         then (case write_callback s of
                 None \<Rightarrow> Inr s
               | Some cb \<Rightarrow> Inr (emit s (Call_write_callback cb val)))
         else Inr s)"
| "irq s (IRQ_OTHER code) = Inr s"

text \<open>
  \<^verbatim>\<open>send\<close>. The loop runs over the members of the set in the order in which iterating
  the set yields them; the order is the interpreter's, so it is a parameter \<open>iter\<close>.
\<close>

fun send_loop :: "'cb session \<Rightarrow> int list \<Rightarrow> bytes \<Rightarrow> 'cb session" where
  "send_loop s [] data = s"
| "send_loop s (conn_handle # rest) data =
     send_loop (emit s (Gatts_notify conn_handle (handle_tx s) data)) rest data"

definition send :: "(int set \<Rightarrow> int list) \<Rightarrow> 'cb session \<Rightarrow> bytes \<Rightarrow> 'cb session" where
  "send iter s data = send_loop s (iter (connections s)) data"

text \<open>\<^verbatim>\<open>is_connected\<close>: \<^verbatim>\<open>len(self._connections) > 0\<close>, on a set that is finite.\<close>

definition is_connected :: "'cb session \<Rightarrow> bool" where
  "is_connected s = (card (connections s) > 0)"

text \<open>\<^verbatim>\<open>on_write\<close>: the argument is \<^verbatim>\<open>None\<close> or a callable.\<close>

definition on_write :: "'cb session \<Rightarrow> 'cb option \<Rightarrow> 'cb session" where
  "on_write s callback = s\<lparr>write_callback := callback\<rparr>"

subsection \<open>Runs of events\<close>

text \<open>
  The state a call of \<^verbatim>\<open>_irq\<close> leaves, whether it returned or raised, and the state
  after the handler has been called for each event of a list in turn.
\<close>

fun state_of :: "'cb result \<Rightarrow> 'cb session" where
  "state_of (Inl (e, s)) = s"
| "state_of (Inr s) = s"

fun deliver :: "'cb session \<Rightarrow> irq_event list \<Rightarrow> 'cb session" where
  "deliver s [] = s"
| "deliver s (e # es) = deliver (state_of (irq s e)) es"

text \<open>The effects a later state has added to those of an earlier one.\<close>

definition new_effects :: "'cb session \<Rightarrow> 'cb session \<Rightarrow> 'cb effect list" where
  "new_effects s s' = drop (length (effects s)) (effects s')"

fun is_advertise :: "'cb effect \<Rightarrow> bool" where
  "is_advertise (Gap_advertise i p) = True"
| "is_advertise e = False"

fun is_callback :: "'cb effect \<Rightarrow> bool" where
  "is_callback (Call_write_callback cb v) = True"
| "is_callback e = False"

section \<open>Properties of the encoder\<close>

lemmas adv_types = ADV_TYPE_FLAGS_def ADV_TYPE_NAME_def ADV_TYPE_UUID16_COMPLETE_def
  ADV_TYPE_UUID32_COMPLETE_def ADV_TYPE_UUID128_COMPLETE_def ADV_TYPE_APPEARANCE_def

lemma services_loop_append:
  "services_loop p us = p @ services_loop [] us"
proof (induction us arbitrary: p)
  case Nil
  show ?case by simp
next
  case (Cons u us)
  have step: "services_loop (append_field p t u) us = p @ services_loop (append_field [] t u) us" for t
  proof -
    have "services_loop (append_field p t u) us = append_field p t u @ services_loop [] us"
      by (rule Cons.IH)
    also have "\<dots> = p @ (append_field [] t u @ services_loop [] us)"
      by (simp add: append_field_def)
    also have "append_field [] t u @ services_loop [] us = services_loop (append_field [] t u) us"
      by (rule Cons.IH [symmetric])
    finally show ?thesis .
  qed
  show ?case by (simp add: step Cons.IH [of p])
qed

lemma name_step:
  "(case name of None \<Rightarrow> p | Some n \<Rightarrow> if n \<noteq> [] then append_field p ADV_TYPE_NAME n else p)
     = p @ name_part name"
  by (simp add: name_part_def append_field_def split: option.split)

lemma services_step:
  "(case sv of None \<Rightarrow> p | Some uuids \<Rightarrow> if uuids \<noteq> [] then services_loop p uuids else p)
     = p @ services_part sv"
  by (cases sv) (simp_all add: services_part_def services_loop_append [of p])

lemma appearance_step:
  "(if a \<noteq> 0 then append_field p ADV_TYPE_APPEARANCE (pack_h_le a) else p)
     = p @ appearance_part a"
  by (simp add: appearance_part_def append_field_def)

lemma advertising_payload_parts:
  "advertising_payload ld be name sv a =
     flags_part ld be @ name_part name @ services_part sv @ appearance_part a"
  unfolding advertising_payload_def Let_def name_step services_step appearance_step
  by (simp add: flags_part_def)

lemma flags_part_bytes:
  "flags_part ld be = [2, 0x01, (if ld then 0x01 else 0x02) OR (if be then 0x18 else 0x04)]"
  by (simp add: flags_part_def append_field_def pack_BB_def pack_B_def adv_types)


lemma services_loop_fields:
  "services_loop [] us =
     concat (map (\<lambda>u. if length u = 2 then [3, 0x03] @ u
                       else if length u = 4 then [5, 0x05] @ u
                       else if length u = 16 then [17, 0x07] @ u
                       else []) us)"
proof (induction us)
  case Nil
  show ?case by simp
next
  case (Cons u us)
  have "services_loop [] (u # us) =
      (if length u = 2 then append_field [] ADV_TYPE_UUID16_COMPLETE u
       else if length u = 4 then append_field [] ADV_TYPE_UUID32_COMPLETE u
       else if length u = 16 then append_field [] ADV_TYPE_UUID128_COMPLETE u
       else []) @ services_loop [] us"
    by (simp add: services_loop_append [of "append_field [] t u" for t])
  then show ?case
    by (simp add: Cons.IH append_field_def pack_BB_def adv_types)
qed

text \<open>
  C5. The payload starts with the Flags field: length byte 2, type 0x01, and one byte that
  is the bitwise OR of the discoverability bit (0x01 limited, 0x02 general) with 0x18
  (classic-capable) or 0x04. The source adds the two numbers; their bits are disjoint.
  \<^verbatim>\<open>limited_disc=True, br_edr=False\<close> gives 0x05 and
  \<^verbatim>\<open>limited_disc=False, br_edr=True\<close> gives 0x1A.
\<close>

theorem flags_field_first:
  "take 3 (advertising_payload limited_disc br_edr name services appearance) =
     [2, 0x01, (if limited_disc then 0x01 else 0x02) OR (if br_edr then 0x18 else 0x04)]
   \<and> take 3 (advertising_payload True False name services appearance) = [2, 0x01, 0x05]
   \<and> take 3 (advertising_payload False True name services appearance) = [2, 0x01, 0x1A]"
  by (simp add: advertising_payload_parts flags_part_bytes)

theorem flags_field_first_witness:
  "take 3 (advertising_payload True True (Some (bytes_of ''car-leo'')) None 0) = [2, 0x01, 0x19]"
  using flags_field_first [of True True "Some (bytes_of ''car-leo'')" None 0] by simp

lemma byte_of_int_mod: "(word_of_int (k mod 256) :: byte) = word_of_int k"
  by (simp add: word_of_int_eq_iff take_bit_eq_mod)

lemma length_byte: "(word_of_int ((int (length v) + 1) mod 256) :: byte) = of_nat (length v + 1)"
  by (simp add: byte_of_int_mod)

lemma unat_length_byte: "length v \<le> 254 \<Longrightarrow> unat (of_nat (length v + 1) :: byte) = length v + 1"
  unfolding unat_of_nat by simp

lemma append_field_bytes:
  "append_field p t v = p @ field_bytes (word_of_int t, v)"
  by (simp add: append_field_def pack_BB_def field_bytes_def length_byte byte_of_int_mod)

text \<open>
  C2. For a nonzero 16-bit appearance code the payload is the payload built with
  appearance 0, followed by the Appearance field: length byte 3, type 0x19, and the two
  bytes of the code, low byte first.
\<close>

theorem appearance_field_little_endian:
  assumes "0 < appearance" and "appearance < 65536"
  shows "\<exists>lo hi :: byte.
           advertising_payload limited_disc br_edr name services appearance =
             advertising_payload limited_disc br_edr name services 0 @ [3, 0x19, lo, hi]
           \<and> uint lo + 256 * uint hi = appearance"
proof -
  let ?lo = "word_of_int (appearance mod 256) :: byte"
  let ?hi = "word_of_int (appearance div 256 mod 256) :: byte"
  have "appearance_part appearance = [3, 0x19, ?lo, ?hi]"
    using assms by (simp add: appearance_part_def append_field_def pack_BB_def pack_h_le_def adv_types)
  then have "advertising_payload limited_disc br_edr name services appearance =
      advertising_payload limited_disc br_edr name services 0 @ [3, 0x19, ?lo, ?hi]"
    by (simp add: advertising_payload_parts appearance_part_def)
  moreover have "uint ?lo + 256 * uint ?hi = appearance"
    using assms by (simp add: uint_word_of_int take_bit_eq_mod)
  ultimately show ?thesis by blast
qed

theorem appearance_field_little_endian_witness:
  "\<exists>lo hi :: byte.
     advertising_payload False False None None 0x03C1 = [2, 0x01, 0x06, 3, 0x19, lo, hi]
     \<and> uint lo + 256 * uint hi = 0x03C1"
  using appearance_field_little_endian [of "0x03C1" False False None None]
  by (simp add: advertising_payload_parts flags_part_bytes name_part_def services_part_def appearance_part_def)

text \<open>
  C4. The service UUIDs contribute, between the name and the appearance, one field each
  in their order: a 2-byte UUID a field of type 0x03, a 4-byte UUID of type 0x05, a
  16-byte UUID of type 0x07; a UUID of any other length contributes nothing, and the
  builder returns its payload all the same.
\<close>

theorem uuid_tag_by_length:
  "advertising_payload limited_disc br_edr name (Some uuids) appearance =
     flags_part limited_disc br_edr @ name_part name
     @ concat (map (\<lambda>u. if length u = 2 then [3, 0x03] @ u
                         else if length u = 4 then [5, 0x05] @ u
                         else if length u = 16 then [17, 0x07] @ u
                         else []) uuids)
     @ appearance_part appearance"
  by (simp add: advertising_payload_parts services_part_def services_loop_fields)

theorem uuid_tag_by_length_witness:
  "advertising_payload False False None (Some [[0xAA, 0xBB], [0x01, 0x02, 0x03], [1, 2, 3, 4]]) 0 =
     [2, 0x01, 0x06, 3, 0x03, 0xAA, 0xBB, 5, 0x05, 1, 2, 3, 4]"
  using uuid_tag_by_length [of False False None "[[0xAA, 0xBB], [0x01, 0x02, 0x03], [1, 2, 3, 4]]" 0]
  by (simp add: flags_part_bytes name_part_def appearance_part_def)


lemma decompose_field:
  assumes "length v \<le> 254"
  shows "decompose (field_bytes (t, v) @ rest) = map_option ((#) (t, v)) (decompose rest)"
proof -
  have "unat (of_nat (length v + 1) :: byte) = length v + 1"
    using assms by (rule unat_length_byte)
  then show ?thesis
    by (simp add: field_bytes_def split: option.split)
qed

lemma decompose_complete:
  "\<forall>f\<in>set fs. length (snd f) \<le> 254 \<Longrightarrow> decompose (concat (map field_bytes fs)) = Some fs"
proof (induction fs)
  case Nil
  show ?case by simp
next
  case (Cons f fs)
  obtain t v where f: "f = (t, v)" by (cases f)
  with Cons.prems have "length v \<le> 254" by simp
  then have "decompose (field_bytes (t, v) @ concat (map field_bytes fs))
      = map_option ((#) (t, v)) (decompose (concat (map field_bytes fs)))"
    by (rule decompose_field)
  with Cons f show ?case by simp
qed

lemma decompose_sound:
  "decompose p = Some fs \<Longrightarrow>
     concat (map field_bytes fs) = p \<and> (\<forall>f\<in>set fs. length (snd f) \<le> 254)"
proof (induction p arbitrary: fs rule: decompose.induct)
  case 1
  then show ?case by simp
next
  case (2 l)
  then show ?case by simp
next
  case (3 l t rest)
  let ?k = "unat l - 1"
  from "3.prems" have l: "unat l \<noteq> 0" and len: "?k \<le> length rest"
    by (auto split: if_splits)
  from "3.prems" l len obtain fs' where
    fs': "decompose (drop ?k rest) = Some fs'" and fs: "fs = (t, take ?k rest) # fs'"
    by (auto split: option.splits if_splits)
  have IH: "concat (map field_bytes fs') = drop ?k rest \<and> (\<forall>f\<in>set fs'. length (snd f) \<le> 254)"
    using "3.IH" [of fs'] l len fs' by simp
  have "unat l < 256" using unsigned_less [of l, where ?'a = nat] by simp
  then have k: "?k \<le> 254" by simp
  have "of_nat (?k + 1) = l" using l by simp
  then have "field_bytes (t, take ?k rest) = l # t # take ?k rest"
    using len by (simp add: field_bytes_def min_def)
  with IH fs k len show ?case by (simp add: min_def)
qed

lemma length_fields:
  "length (concat (map field_bytes fs)) = (\<Sum>f\<leftarrow>fs. length (snd f) + 2)"
  by (induction fs) (simp_all add: field_bytes_def)


lemma tiled_append: "tiled p \<Longrightarrow> tiled q \<Longrightarrow> tiled (p @ q)"
proof -
  assume "tiled p" and "tiled q"
  then obtain fs gs where
    1: "p = concat (map field_bytes fs)" "\<forall>f\<in>set fs. length (snd f) \<le> 254" and
    2: "q = concat (map field_bytes gs)" "\<forall>f\<in>set gs. length (snd f) \<le> 254"
    unfolding tiled_def by blast
  then have "p @ q = concat (map field_bytes (fs @ gs)) \<and> (\<forall>f\<in>set (fs @ gs). length (snd f) \<le> 254)"
    by auto
  then show ?thesis unfolding tiled_def by blast
qed

lemma tiled_field: "length v \<le> 254 \<Longrightarrow> tiled (append_field [] t v)"
proof -
  assume "length v \<le> 254"
  then have "append_field [] t v = concat (map field_bytes [(word_of_int t, v)])
      \<and> (\<forall>f\<in>set [(word_of_int t :: byte, v)]. length (snd f) \<le> 254)"
    by (simp add: append_field_bytes)
  then show ?thesis unfolding tiled_def by blast
qed

lemma tiled_Nil: "tiled []"
  unfolding tiled_def by (rule exI [of _ "[]"]) simp

lemma tiled_flags_part: "tiled (flags_part ld be)"
  unfolding flags_part_def by (rule tiled_field) (simp add: pack_B_def)

lemma tiled_name_part:
  assumes "\<forall>n. name = Some n \<longrightarrow> length n \<le> 254"
  shows "tiled (name_part name)"
proof (cases name)
  case None
  then show ?thesis by (simp add: name_part_def tiled_Nil)
next
  case (Some n)
  with assms have "length n \<le> 254" by simp
  then show ?thesis using Some by (simp add: name_part_def tiled_Nil tiled_field)
qed

lemma tiled_services_loop: "tiled (services_loop [] us)"
proof (induction us)
  case Nil
  show ?case by (simp add: tiled_Nil)
next
  case (Cons u us)
  have "tiled (if length u = 2 then append_field [] ADV_TYPE_UUID16_COMPLETE u
       else if length u = 4 then append_field [] ADV_TYPE_UUID32_COMPLETE u
       else if length u = 16 then append_field [] ADV_TYPE_UUID128_COMPLETE u
       else [])"
    by (simp add: tiled_Nil tiled_field)
  moreover have "services_loop [] (u # us) =
      (if length u = 2 then append_field [] ADV_TYPE_UUID16_COMPLETE u
       else if length u = 4 then append_field [] ADV_TYPE_UUID32_COMPLETE u
       else if length u = 16 then append_field [] ADV_TYPE_UUID128_COMPLETE u
       else []) @ services_loop [] us"
    by (simp add: services_loop_append [of "append_field [] t u" for t])
  ultimately show ?case using Cons.IH by (simp only: tiled_append)
qed

lemma tiled_services_part: "tiled (services_part sv)"
  by (cases sv) (simp_all add: services_part_def tiled_Nil tiled_services_loop)

lemma tiled_appearance_part: "tiled (appearance_part a)"
  by (simp add: appearance_part_def tiled_Nil tiled_field pack_h_le_def)

lemma advertising_payload_fields:
  assumes "\<forall>n. name = Some n \<longrightarrow> length n \<le> 254"
  shows "tiled (advertising_payload ld be name sv a)"
  unfolding advertising_payload_parts
  by (intro tiled_append tiled_flags_part tiled_name_part [OF assms] tiled_services_part
      tiled_appearance_part)

lemma unat_hd_field_bytes:
  "length (snd f) \<le> 254 \<Longrightarrow> unat (hd (field_bytes f)) = length (snd f) + 1"
  unfolding field_bytes_def list.sel by (rule unat_length_byte)

text \<open>
  C3, amended. When the name is absent or has at most 254 bytes, for any flags, any
  sequence of service UUIDs and any appearance, the payload decomposes into consecutive
  fields: \<open>decompose\<close> returns fields whose bytes concatenate to the payload, the
  length byte of each is the length of its value plus 1, and the lengths of the fields
  (two bytes and the value, each) add up to the length of the payload.
\<close>

theorem payload_decomposes:
  assumes "\<forall>n. name = Some n \<longrightarrow> length n \<le> 254"
  shows "\<exists>fs. decompose (advertising_payload limited_disc br_edr name services appearance) = Some fs
           \<and> concat (map field_bytes fs) = advertising_payload limited_disc br_edr name services appearance
           \<and> (\<forall>f\<in>set fs. unat (hd (field_bytes f)) = length (snd f) + 1)
           \<and> (\<Sum>f\<leftarrow>fs. length (snd f) + 2)
               = length (advertising_payload limited_disc br_edr name services appearance)"
proof -
  let ?p = "advertising_payload limited_disc br_edr name services appearance"
  from advertising_payload_fields [OF assms] obtain fs where
    p: "?p = concat (map field_bytes fs)" and fit: "\<forall>f\<in>set fs. length (snd f) \<le> 254"
    unfolding tiled_def by blast
  show ?thesis
  proof (intro exI conjI)
    show "decompose ?p = Some fs"
      unfolding p using fit by (rule decompose_complete)
    show "concat (map field_bytes fs) = ?p"
      by (rule p [symmetric])
    show "\<forall>f\<in>set fs. unat (hd (field_bytes f)) = length (snd f) + 1"
      using fit unat_hd_field_bytes by blast
    show "(\<Sum>f\<leftarrow>fs. length (snd f) + 2) = length ?p"
      unfolding p by (rule length_fields [symmetric])
  qed
qed

theorem payload_decomposes_witness:
  "\<exists>fs. decompose (advertising_payload False False (Some (bytes_of ''car-leo'')) (Some [[0xAA, 0xBB]]) 0x03C1) = Some fs
      \<and> concat (map field_bytes fs) = advertising_payload False False (Some (bytes_of ''car-leo'')) (Some [[0xAA, 0xBB]]) 0x03C1
      \<and> (\<forall>f\<in>set fs. unat (hd (field_bytes f)) = length (snd f) + 1)
      \<and> (\<Sum>f\<leftarrow>fs. length (snd f) + 2)
          = length (advertising_payload False False (Some (bytes_of ''car-leo'')) (Some [[0xAA, 0xBB]]) 0x03C1)"
  using payload_decomposes [of "Some (bytes_of ''car-leo'')" False False "Some [[0xAA, 0xBB]]" "0x03C1"]
  by (simp add: bytes_of_def)

text \<open>
  The claim as stated, for any name, fails for a name of 255 bytes: the length byte of
  the name field is 256 modulo 256, that is 0, and the payload is not a sequence of
  fields.
\<close>

theorem payload_decomposes_counterexample:
  "decompose (advertising_payload False False (Some (replicate 255 0x41)) None 0) = None"
  by (simp add: advertising_payload_parts flags_part_bytes name_part_def services_part_def
      appearance_part_def append_field_def pack_BB_def adv_types)


lemma name_part_field:
  "n \<noteq> [] \<Longrightarrow> name_part (Some n) = field_bytes (0x09, n)"
  by (simp add: name_part_def append_field_bytes adv_types)

lemma flags_part_field:
  "\<exists>b. flags_part ld be = field_bytes (0x01, [b])"
  by (auto simp: flags_part_def append_field_bytes adv_types pack_B_def)

lemma decompose_with_name:
  assumes "n \<noteq> []" and "length n \<le> 254"
  shows "\<exists>b gs. decompose (advertising_payload ld be (Some n) sv a) = Some ((0x01, [b]) # (0x09, n) # gs)"
proof -
  obtain b where b: "flags_part ld be = field_bytes (0x01, [b])"
    using flags_part_field by blast
  have "tiled (services_part sv @ appearance_part a)"
    by (intro tiled_append tiled_services_part tiled_appearance_part)
  then obtain gs where gs: "services_part sv @ appearance_part a = concat (map field_bytes gs)"
    and fit: "\<forall>f\<in>set gs. length (snd f) \<le> 254"
    unfolding tiled_def by blast
  have rest: "decompose (services_part sv @ appearance_part a) = Some gs"
    unfolding gs using fit by (rule decompose_complete)
  have "advertising_payload ld be (Some n) sv a
      = field_bytes (0x01, [b]) @ field_bytes (0x09, n) @ (services_part sv @ appearance_part a)"
    using assms(1) by (simp add: advertising_payload_parts b name_part_field)
  then have "decompose (advertising_payload ld be (Some n) sv a) = Some ((0x01, [b]) # (0x09, n) # gs)"
    using assms(2) rest by (simp add: decompose_field)
  then show ?thesis by blast
qed

lemma has_field_name:
  assumes "n \<noteq> []" and "length n \<le> 254"
  shows "has_field (advertising_payload ld be (Some n) sv a) (0x09, n)"
proof -
  obtain b gs where
    "decompose (advertising_payload ld be (Some n) sv a) = Some ((0x01, [b]) # (0x09, n) # gs)"
    using decompose_with_name [OF assms] by blast
  then show ?thesis by (simp add: has_field_def)
qed

text \<open>
  C9, amended. For a non-empty name of at most 254 bytes the payload is the payload built
  without a name, with the Complete-Local-Name field put after the three bytes of the
  Flags field: the length byte, which is the length of the name plus 1, type 0x09, and
  the bytes of the name as they are; and the name, with type 0x09, is one of the fields
  the payload decomposes into. For \<^verbatim>\<open>b"car-leo"\<close> the field is
  \<^verbatim>\<open>[8][0x09]car-leo\<close>.
\<close>

theorem name_field_verbatim:
  "(n \<noteq> [] \<and> length n \<le> 254 \<longrightarrow>
      advertising_payload limited_disc br_edr (Some n) services appearance =
        take 3 (advertising_payload limited_disc br_edr None services appearance)
        @ [of_nat (length n + 1), 0x09] @ n
        @ drop 3 (advertising_payload limited_disc br_edr None services appearance)
      \<and> unat (of_nat (length n + 1) :: byte) = length n + 1
      \<and> has_field (advertising_payload limited_disc br_edr (Some n) services appearance) (0x09, n))
   \<and> advertising_payload limited_disc br_edr (Some (bytes_of ''car-leo'')) services appearance =
        take 3 (advertising_payload limited_disc br_edr None services appearance)
        @ [8, 0x09, 0x63, 0x61, 0x72, 0x2d, 0x6c, 0x65, 0x6f]
        @ drop 3 (advertising_payload limited_disc br_edr None services appearance)
   \<and> has_field (advertising_payload limited_disc br_edr (Some (bytes_of ''car-leo'')) services appearance)
        (0x09, [0x63, 0x61, 0x72, 0x2d, 0x6c, 0x65, 0x6f])"
proof -
  have layout: "advertising_payload limited_disc br_edr (Some n) services appearance =
        take 3 (advertising_payload limited_disc br_edr None services appearance)
        @ [of_nat (length n + 1), 0x09] @ n
        @ drop 3 (advertising_payload limited_disc br_edr None services appearance)"
    if "n \<noteq> []" for n
    using that
    by (simp add: advertising_payload_parts flags_part_bytes name_part_def append_field_bytes
        field_bytes_def adv_types)
  have car: "bytes_of ''car-leo'' = [0x63, 0x61, 0x72, 0x2d, 0x6c, 0x65, 0x6f]"
    by (simp add: bytes_of_def)
  have "has_field (advertising_payload limited_disc br_edr (Some (bytes_of ''car-leo'')) services appearance)
        (0x09, [0x63, 0x61, 0x72, 0x2d, 0x6c, 0x65, 0x6f])"
    using has_field_name [of "bytes_of ''car-leo''" limited_disc br_edr services appearance]
    by (simp add: car)
  moreover have "advertising_payload limited_disc br_edr (Some (bytes_of ''car-leo'')) services appearance =
        take 3 (advertising_payload limited_disc br_edr None services appearance)
        @ [8, 0x09, 0x63, 0x61, 0x72, 0x2d, 0x6c, 0x65, 0x6f]
        @ drop 3 (advertising_payload limited_disc br_edr None services appearance)"
    using layout [of "bytes_of ''car-leo''"] by (simp add: car)
  ultimately show ?thesis
    using layout [of n] has_field_name [of n limited_disc br_edr services appearance]
      unat_length_byte [of n]
    by blast
qed

theorem name_field_verbatim_witness:
  "[0x68, 0x69 :: byte] \<noteq> [] \<and> length [0x68, 0x69 :: byte] \<le> 254
   \<and> advertising_payload False False (Some [0x68, 0x69]) None 0 = [2, 0x01, 0x06, 3, 0x09, 0x68, 0x69]
   \<and> has_field (advertising_payload False False (Some [0x68, 0x69]) None 0) (0x09, [0x68, 0x69])"
  using name_field_verbatim [of "[0x68, 0x69]" False False None 0]
  by (simp add: advertising_payload_parts flags_part_bytes name_part_def services_part_def
      appearance_part_def append_field_def pack_BB_def adv_types has_field_def bytes_of_def)

text \<open>
  The claim as stated, for every non-empty name, fails for a name of 255 bytes: the two
  bytes written before the name are 0 and 0x09, a length byte of 0, and the name is not a
  field of the payload.
\<close>

theorem name_field_verbatim_counterexample:
  "replicate 255 (0x41 :: byte) \<noteq> []
   \<and> take 2 (drop 3 (advertising_payload False False (Some (replicate 255 0x41)) None 0)) = [0, 0x09]
   \<and> \<not> has_field (advertising_payload False False (Some (replicate 255 0x41)) None 0)
         (0x09, replicate 255 0x41)"
  by (simp add: has_field_def advertising_payload_parts flags_part_bytes name_part_def
      services_part_def appearance_part_def append_field_def pack_BB_def adv_types)

section \<open>Properties of the session\<close>

lemma emit_fields [simp]:
  "effects (emit s e) = effects s @ [e]"
  "connections (emit s e) = connections s"
  "write_callback (emit s e) = write_callback s"
  "handle_rx (emit s e) = handle_rx s"
  "handle_tx (emit s e) = handle_tx s"
  "payload (emit s e) = payload s"
  "ble_gatts_value (emit s e) = ble_gatts_value s"
  by (simp_all add: emit_def)

lemma advertise_fields [simp]:
  "effects (advertise s i) = effects s @ [Print ''Starting advertising'' [], Gap_advertise i (payload s)]"
  "connections (advertise s i) = connections s"
  "write_callback (advertise s i) = write_callback s"
  "handle_rx (advertise s i) = handle_rx s"
  "handle_tx (advertise s i) = handle_tx s"
  "payload (advertise s i) = payload s"
  "ble_gatts_value (advertise s i) = ble_gatts_value s"
  by (simp_all add: advertise_def)

lemma irq_write_callback: "write_callback (state_of (irq s e)) = write_callback s"
  by (cases e) (simp_all add: Let_def split: option.split)

lemma irq_effects:
  "\<exists>ns. effects (state_of (irq s e)) = effects s @ ns
      \<and> (\<forall>cb v. Call_write_callback cb v \<in> set ns \<longrightarrow> write_callback s = Some cb)"
  by (cases e) (simp_all add: Let_def split: option.split)

lemma deliver_write_callback: "write_callback (deliver s es) = write_callback s"
  by (induction es arbitrary: s) (simp_all add: irq_write_callback)

lemma deliver_effects:
  "\<exists>ns. effects (deliver s es) = effects s @ ns
      \<and> (\<forall>cb v. Call_write_callback cb v \<in> set ns \<longrightarrow> write_callback s = Some cb)"
proof (induction es arbitrary: s)
  case Nil
  show ?case by simp
next
  case (Cons e es)
  obtain ns where ns: "effects (state_of (irq s e)) = effects s @ ns"
    "\<forall>cb v. Call_write_callback cb v \<in> set ns \<longrightarrow> write_callback s = Some cb"
    using irq_effects [of s e] by blast
  obtain ms where ms: "effects (deliver (state_of (irq s e)) es) = effects (state_of (irq s e)) @ ms"
    "\<forall>cb v. Call_write_callback cb v \<in> set ms \<longrightarrow> write_callback (state_of (irq s e)) = Some cb"
    using Cons.IH [of "state_of (irq s e)"] by blast
  have "effects (deliver s (e # es)) = effects s @ (ns @ ms)"
    using ns ms by simp
  moreover have "\<forall>cb v. Call_write_callback cb v \<in> set (ns @ ms) \<longrightarrow> write_callback s = Some cb"
    using ns ms by (auto simp: irq_write_callback)
  ultimately show ?case by blast
qed

lemma effects_deliver:
  "effects (deliver s es) = effects s @ new_effects s (deliver s es)"
proof -
  obtain ns where "effects (deliver s es) = effects s @ ns"
    using deliver_effects [of s es] by blast
  then show ?thesis by (simp add: new_effects_def)
qed

lemma callback_of_deliver:
  assumes "Call_write_callback cb v \<in> set (new_effects s (deliver s es))"
  shows "write_callback s = Some cb"
proof -
  obtain ns where ns: "effects (deliver s es) = effects s @ ns"
    and cb: "\<forall>cb v. Call_write_callback cb v \<in> set ns \<longrightarrow> write_callback s = Some cb"
    using deliver_effects [of s es] by blast
  from ns have "new_effects s (deliver s es) = ns" by (simp add: new_effects_def)
  with assms cb show ?thesis by blast
qed

lemma is_callback_iff: "is_callback e \<longleftrightarrow> (\<exists>cb v. e = Call_write_callback cb v)"
  by (cases e) simp_all

lemma no_callback_deliver:
  assumes "write_callback s = None"
  shows "filter is_callback (new_effects s (deliver s es)) = []"
proof -
  have "\<not> is_callback e" if "e \<in> set (new_effects s (deliver s es))" for e
  proof
    assume "is_callback e"
    then obtain cb v where "e = Call_write_callback cb v"
      unfolding is_callback_iff by blast
    with that have "Call_write_callback cb v \<in> set (new_effects s (deliver s es))"
      by simp
    then have "write_callback s = Some cb"
      by (rule callback_of_deliver)
    with assms show False by simp
  qed
  then show ?thesis by (simp add: filter_empty_conv)
qed

lemma send_loop_effects:
  "send_loop s hs data = s\<lparr>effects := effects s @ map (\<lambda>h. Gatts_notify h (handle_tx s) data) hs\<rparr>"
  by (induction hs arbitrary: s) (simp_all add: emit_def)

lemma count_list_distinct: "distinct xs \<Longrightarrow> x \<in> set xs \<Longrightarrow> count_list xs x = 1"
  by (induction xs) auto

text \<open>
  C1, amended. A Disconnect event whose connection handle is not in the open-connection
  set raises \<^verbatim>\<open>KeyError\<close> at \<^verbatim>\<open>set.remove\<close>: the line is printed, the set is left
  unchanged, and nothing after the removal runs (the LED is not switched off and
  advertising is not restarted).
\<close>
theorem disconnect_unknown_handle_raises:
  assumes "h \<notin> connections s"
  shows "irq s (IRQ_CENTRAL_DISCONNECT h addr_type addr)
           = Inl (KeyError h, emit s (Print ''Disconnected'' [h]))
         \<and> connections (state_of (irq s (IRQ_CENTRAL_DISCONNECT h addr_type addr))) = connections s"
  using assms by (simp add: Let_def)

theorem disconnect_unknown_handle_raises_witness:
  "irq (init (\<lambda>a. []) 10 11 [0x0D, 0x18] (Some (bytes_of ''car-leo'')) :: unit session)
       (IRQ_CENTRAL_DISCONNECT 7 0 [])
     = Inl (KeyError 7,
            emit (init (\<lambda>a. []) 10 11 [0x0D, 0x18] (Some (bytes_of ''car-leo''))) (Print ''Disconnected'' [7]))
   \<and> connections (state_of (irq (init (\<lambda>a. []) 10 11 [0x0D, 0x18] (Some (bytes_of ''car-leo'')) :: unit session)
       (IRQ_CENTRAL_DISCONNECT 7 0 []))) = {}"
  using disconnect_unknown_handle_raises
    [of 7 "init (\<lambda>a. []) 10 11 [0x0D, 0x18] (Some (bytes_of ''car-leo'')) :: unit session" 0 "[]"]
  by (simp add: init_def)

text \<open>
  The claim as stated, that no error is raised: on a session just constructed, which has
  no connection, the Disconnect event for handle 7 ends in an error.
\<close>

theorem disconnect_unknown_handle_counterexample:
  "isl (irq (init (\<lambda>a. []) 10 11 [0x0D, 0x18] (Some (bytes_of ''car-leo'')) :: unit session)
          (IRQ_CENTRAL_DISCONNECT 7 0 []))"
  by (simp add: init_def Let_def)

text \<open>
  C6. From a session with no open connection, a Connect event for a handle followed by
  a Disconnect event for the same handle both return; the session is connected in
  between and not connected afterwards, and the run adds one \<^verbatim>\<open>gap_advertise\<close> call,
  with the stored payload, to those made before. From a session just constructed the
  calls of \<^verbatim>\<open>gap_advertise\<close> are then two: the one of the constructor and the one of the
  disconnect.
\<close>
theorem connect_disconnect_readvertises:
  "(connections s = {} \<longrightarrow>
      (\<exists>s1 s2.
         irq s (IRQ_CENTRAL_CONNECT h addr_type addr) = Inr s1 \<and> is_connected s1
         \<and> irq s1 (IRQ_CENTRAL_DISCONNECT h addr_type' addr') = Inr s2 \<and> \<not> is_connected s2
         \<and> filter is_advertise (effects s2)
             = filter is_advertise (effects s) @ [Gap_advertise 500000 (payload s)]))
   \<and> (\<exists>s1 s2.
         irq (init gatts_value tx rx uart_uuid name) (IRQ_CENTRAL_CONNECT h addr_type addr) = Inr s1
         \<and> irq s1 (IRQ_CENTRAL_DISCONNECT h addr_type' addr') = Inr s2 \<and> \<not> is_connected s2
         \<and> filter is_advertise (effects s2)
             = [Gap_advertise 500000 (advertising_payload False False name (Some [uart_uuid]) 0),
                Gap_advertise 500000 (advertising_payload False False name (Some [uart_uuid]) 0)])"
  by (simp add: Let_def is_connected_def init_def)

theorem connect_disconnect_readvertises_witness:
  "connections (on_write (init (\<lambda>a. []) 10 11 [0x0D, 0x18] (Some (bytes_of ''car-leo''))) (Some (0::nat))) = {}
   \<and> (\<exists>s1 s2.
     irq (on_write (init (\<lambda>a. []) 10 11 [0x0D, 0x18] (Some (bytes_of ''car-leo''))) (Some (0::nat)))
         (IRQ_CENTRAL_CONNECT 64 0 [1, 2, 3, 4, 5, 6]) = Inr s1
     \<and> is_connected s1
     \<and> irq s1 (IRQ_CENTRAL_DISCONNECT 64 0 [1, 2, 3, 4, 5, 6]) = Inr s2
     \<and> \<not> is_connected s2
     \<and> filter is_advertise (effects s2)
         = [Gap_advertise 500000 [2, 1, 6, 8, 9, 0x63, 0x61, 0x72, 0x2d, 0x6c, 0x65, 0x6f, 3, 3, 0x0D, 0x18],
            Gap_advertise 500000 [2, 1, 6, 8, 9, 0x63, 0x61, 0x72, 0x2d, 0x6c, 0x65, 0x6f, 3, 3, 0x0D, 0x18]])"
  using connect_disconnect_readvertises
    [where s = "on_write (init (\<lambda>a. []) 10 11 [0x0D, 0x18] (Some (bytes_of ''car-leo''))) (Some (0::nat))"
       and h = 64 and addr_type = 0 and addr = "[1, 2, 3, 4, 5, 6]"
       and addr_type' = 0 and addr' = "[1, 2, 3, 4, 5, 6]"
       and gatts_value = "\<lambda>a. []" and tx = 10 and rx = 11 and uart_uuid = "[0x0D, 0x18]"
       and name = "Some (bytes_of ''car-leo'')"]
  by (simp add: init_def on_write_def is_connected_def Let_def advertising_payload_parts
      flags_part_bytes name_part_def services_part_def appearance_part_def append_field_def
      pack_BB_def adv_types bytes_of_def)

text \<open>
  C7. Whatever the order in which iterating the set yields its members (each once),
  \<^verbatim>\<open>send\<close> changes nothing but the effects, and adds to them exactly one
  \<^verbatim>\<open>gatts_notify\<close> call per open connection, each for the tx handle and the data, and
  nothing else; with no open connection it adds nothing.
\<close>
theorem send_notifies_each_connection:
  assumes "set (iter (connections s)) = connections s" and "distinct (iter (connections s))"
  shows "send iter s data = s\<lparr>effects := effects s @ new_effects s (send iter s data)\<rparr>
         \<and> (\<forall>h\<in>connections s.
               count_list (new_effects s (send iter s data)) (Gatts_notify h (handle_tx s) data) = 1)
         \<and> set (new_effects s (send iter s data))
             = (\<lambda>h. Gatts_notify h (handle_tx s) data) ` connections s
         \<and> length (new_effects s (send iter s data)) = card (connections s)
         \<and> (connections s = {} \<longrightarrow> send iter s data = s)"
proof -
  let ?f = "\<lambda>h. Gatts_notify h (handle_tx s) data :: 'a effect"
  let ?hs = "iter (connections s)"
  have send: "send iter s data = s\<lparr>effects := effects s @ map ?f ?hs\<rparr>"
    by (simp add: send_def send_loop_effects)
  then have new: "new_effects s (send iter s data) = map ?f ?hs"
    by (simp add: new_effects_def)
  have inj: "inj ?f" by (rule injI) simp
  have count: "count_list (map ?f ?hs) (?f h) = 1" if "h \<in> connections s" for h
  proof -
    have "count_list (map ?f ?hs) (?f h) = count_list ?hs h"
      using inj by (rule count_list_map_conv)
    also have "\<dots> = 1"
      using assms that by (simp add: count_list_distinct)
    finally show ?thesis .
  qed
  have card: "length (map ?f ?hs) = card (connections s)"
    using assms distinct_card [of ?hs] by simp
  have empty: "send iter s data = s" if "connections s = {}"
  proof -
    from that assms(1) have "?hs = []" by simp
    with send show ?thesis by simp
  qed
  show ?thesis
    unfolding new using send count card empty assms(1) by simp
qed

theorem send_notifies_each_connection_witness:
  "new_effects
     (\<lparr>handle_tx = 10, handle_rx = 11, connections = {3, 5}, write_callback = None :: nat option,
       payload = [], ble_gatts_value = (\<lambda>a. []), effects = []\<rparr>)
     (send (\<lambda>S. if S = {3, 5} then [5, 3] else [])
       \<lparr>handle_tx = 10, handle_rx = 11, connections = {3, 5}, write_callback = None,
        payload = [], ble_gatts_value = (\<lambda>a. []), effects = []\<rparr> [0x68, 0x69])
     = [Gatts_notify 5 10 [0x68, 0x69], Gatts_notify 3 10 [0x68, 0x69]]
   \<and> count_list
       (new_effects
         (\<lparr>handle_tx = 10, handle_rx = 11, connections = {3, 5}, write_callback = None :: nat option,
           payload = [], ble_gatts_value = (\<lambda>a. []), effects = []\<rparr>)
         (send (\<lambda>S. if S = {3, 5} then [5, 3] else [])
           \<lparr>handle_tx = 10, handle_rx = 11, connections = {3, 5}, write_callback = None,
            payload = [], ble_gatts_value = (\<lambda>a. []), effects = []\<rparr> [0x68, 0x69]))
       (Gatts_notify 3 10 [0x68, 0x69]) = 1"
  using send_notifies_each_connection
    [of "\<lambda>S. if S = {3, 5} then [5, 3] else []"
        "\<lparr>handle_tx = 10, handle_rx = 11, connections = {3, 5}, write_callback = None :: nat option,
          payload = [], ble_gatts_value = (\<lambda>a. []), effects = []\<rparr>" "[0x68, 0x69]"]
  by (simp add: send_def emit_def new_effects_def)

text \<open>
  C8. After a second registration the slot holds the second callback. A Write event for
  the rx handle reads the value and calls the second callback with it, and nothing else;
  and in no run of events that follows is the first callback called (when it is not the
  second one registered again).
\<close>
theorem second_callback_replaces_first:
  "write_callback (on_write (on_write s (Some f)) (Some g)) = Some g
   \<and> irq (on_write (on_write s (Some f)) (Some g)) (IRQ_GATTS_WRITE conn_handle (handle_rx s))
       = Inr ((on_write s (Some g))
               \<lparr>effects := effects s @ [Gatts_read (handle_rx s),
                   Call_write_callback g (ble_gatts_value s (handle_rx s))]\<rparr>)
   \<and> (f \<noteq> g \<longrightarrow>
        (\<forall>v. Call_write_callback f v
               \<notin> set (new_effects (on_write (on_write s (Some f)) (Some g))
                        (deliver (on_write (on_write s (Some f)) (Some g)) es))))"
proof -
  let ?s = "on_write (on_write s (Some f)) (Some g)"
  have 1: "write_callback ?s = Some g"
    by (simp add: on_write_def)
  have 2: "irq ?s (IRQ_GATTS_WRITE conn_handle (handle_rx s))
       = Inr ((on_write s (Some g))
               \<lparr>effects := effects s @ [Gatts_read (handle_rx s),
                   Call_write_callback g (ble_gatts_value s (handle_rx s))]\<rparr>)"
    by (simp add: on_write_def emit_def)
  have 3: "Call_write_callback f v \<notin> set (new_effects ?s (deliver ?s es))" if "f \<noteq> g" for v
  proof
    assume "Call_write_callback f v \<in> set (new_effects ?s (deliver ?s es))"
    then have "write_callback ?s = Some f" by (rule callback_of_deliver)
    with 1 that show False by simp
  qed
  from 1 2 3 show ?thesis by blast
qed

theorem second_callback_replaces_first_witness:
  "new_effects
     (on_write (on_write (init (\<lambda>a. [0x21]) 10 11 [0x0D, 0x18] None) (Some (1::nat))) (Some 2))
     (deliver
       (on_write (on_write (init (\<lambda>a. [0x21]) 10 11 [0x0D, 0x18] None) (Some (1::nat))) (Some 2))
       [IRQ_CENTRAL_CONNECT 64 0 [], IRQ_GATTS_WRITE 64 11, IRQ_GATTS_WRITE 64 10])
     = [Print ''New connection'' [64], Led_duty 1000,
        Gatts_read 11, Call_write_callback 2 [0x21], Gatts_read 10]
   \<and> Call_write_callback 1 [0x21]
       \<notin> set (new_effects
         (on_write (on_write (init (\<lambda>a. [0x21]) 10 11 [0x0D, 0x18] None) (Some (1::nat))) (Some 2))
         (deliver
           (on_write (on_write (init (\<lambda>a. [0x21]) 10 11 [0x0D, 0x18] None) (Some (1::nat))) (Some 2))
           [IRQ_CENTRAL_CONNECT 64 0 [], IRQ_GATTS_WRITE 64 11, IRQ_GATTS_WRITE 64 10]))"
  using second_callback_replaces_first
    [of "init (\<lambda>a. [0x21]) 10 11 [0x0D, 0x18] None" "1::nat" 2 64
        "[IRQ_CENTRAL_CONNECT 64 0 [], IRQ_GATTS_WRITE 64 11, IRQ_GATTS_WRITE 64 10]"]
  by (simp add: init_def on_write_def new_effects_def Let_def)

text \<open>
  C10. \<^verbatim>\<open>on_write(None)\<close> after a registration leaves the session as \<^verbatim>\<open>on_write(None)\<close>
  alone does, with an empty slot. A Write event for the rx handle then only reads the
  value, and no run of events that follows calls any callback.
\<close>
theorem on_write_None_disables_callback:
  "on_write (on_write s (Some f)) None = on_write s None
   \<and> write_callback (on_write s None) = None
   \<and> irq (on_write s None) (IRQ_GATTS_WRITE conn_handle (handle_rx s))
       = Inr (emit (on_write s None) (Gatts_read (handle_rx s)))
   \<and> filter is_callback (new_effects (on_write s None) (deliver (on_write s None) es)) = []"
proof -
  have "write_callback (on_write s None) = None"
    by (simp add: on_write_def)
  then have "filter is_callback (new_effects (on_write s None) (deliver (on_write s None) es)) = []"
    by (rule no_callback_deliver)
  then show ?thesis
    by (simp add: on_write_def)
qed

theorem on_write_None_disables_callback_witness:
  "new_effects
     (on_write (on_write (init (\<lambda>a. [0x21]) 10 11 [0x0D, 0x18] None) (Some (1::nat))) None)
     (deliver
       (on_write (on_write (init (\<lambda>a. [0x21]) 10 11 [0x0D, 0x18] None) (Some (1::nat))) None)
       [IRQ_CENTRAL_CONNECT 64 0 [], IRQ_GATTS_WRITE 64 11, IRQ_GATTS_WRITE 64 11])
     = [Print ''New connection'' [64], Led_duty 1000, Gatts_read 11, Gatts_read 11]"
  using on_write_None_disables_callback
    [of "init (\<lambda>a. [0x21]) 10 11 [0x0D, 0x18] None" "1::nat" 64
        "[IRQ_CENTRAL_CONNECT 64 0 [], IRQ_GATTS_WRITE 64 11, IRQ_GATTS_WRITE 64 11]"]
  by (simp add: init_def on_write_def new_effects_def Let_def)


end
